theory Spec2Isabelle
  imports Complex_Main
begin

section \<open>Numbers, arrays and the store\<close>

text \<open>
  The model follows \<^verbatim>\<open>src/helpers.js\<close>. Coordinates, angles and speeds are JavaScript
  numbers: a finite double is a real number. Heights, lengths and loop counters are
  integers. The arithmetic on the coordinates of \<^verbatim>\<open>calculateLine\<close> is that of the reals,
  with \<^verbatim>\<open>Math.round\<close> rounding to the nearest integer, a half upwards; the arithmetic that
  \<^verbatim>\<open>calculateDelays\<close> applies to the speed is a parameter of the model (see below).
\<close>

definition Math_round :: "real \<Rightarrow> real" where
  "Math_round v = of_int \<lfloor>v + 1 / 2\<rfloor>"

definition Math_abs :: "real \<Rightarrow> real" where
  "Math_abs v = \<bar>v\<bar>"

text \<open>
  A number that the code stores, adds or prints: a finite number, or one of the values that
  arithmetic outside the finite numbers yields.
\<close>

datatype number = Num real | NaN | Infinity | NegInfinity

text \<open>
  A JavaScript array is a list of slots; \<open>None\<close> is a hole, which reads as
  \<^verbatim>\<open>undefined\<close>. An assignment beyond the end extends the array with holes; an assignment
  at a negative index creates a named property and leaves slots and length alone.
\<close>

type_synonym 'a array = "'a option list"

definition array_set :: "'a array \<Rightarrow> int \<Rightarrow> 'a \<Rightarrow> 'a array" where
  "array_set a i v =
     (if i < 0 then a
      else if nat i < length a then a[nat i := Some v]
      else a @ replicate (nat i - length a) None @ [Some v])"

definition array_get :: "'a array \<Rightarrow> int \<Rightarrow> 'a option" where
  "array_get a i = (if 0 \<le> i \<and> nat i < length a then a ! nat i else None)"

definition push :: "'a array \<Rightarrow> 'a option \<Rightarrow> 'a array" where
  "push a v = a @ [v]"

type_synonym point = "real \<times> real"

section \<open>calculateLine\<close>

text \<open>
  The variables of \<^verbatim>\<open>calculateLine\<close> that its loop reads and writes. \<open>v_len\<close> is the
  parameter \<^verbatim>\<open>length\<close>.
\<close>

record line_vars =
  v_len :: int
  v_dx :: real
  v_sx :: real
  v_dy :: real
  v_sy :: real
  v_x :: real
  v_y :: real
  v_err :: real
  v_i :: int
  v_p :: "point array"

text \<open>
  The \<^verbatim>\<open>while (true)\<close> loop: push the point, count it, leave when the count equals the
  length, otherwise step along the line. The loop has no other exit, so it is a partial
  function: \<open>None\<close> is a run that never leaves the loop.
\<close>

partial_function (option) calculateLine_loop :: "line_vars \<Rightarrow> point array option" where
  "calculateLine_loop v =
     (let v = v\<lparr>v_p := push (v_p v) (Some (v_x v, v_y v)), v_i := v_i v + 1\<rparr>
      in if v_i v = v_len v then Some (v_p v)
         else let e2 = v_err v;
                  v = (if e2 > - v_dx v
                       then v\<lparr>v_err := v_err v - v_dy v, v_x := v_x v + v_sx v\<rparr> else v);
                  v = (if e2 < v_dy v
                       then v\<lparr>v_err := v_err v + v_dx v, v_y := v_y v + v_sy v\<rparr> else v)
              in calculateLine_loop v)"

declare calculateLine_loop.simps [code]

definition calculateLine :: "real \<Rightarrow> real \<Rightarrow> real \<Rightarrow> int \<Rightarrow> point array option" where
  "calculateLine x y angle len =
     (let xD = Math_round (x + cos angle * (of_int len * 2));
          yD = Math_round (y + sin angle * (of_int len * 2));
          dx = Math_abs (xD - x);
          sx = (if x < xD then 1 else - 1);
          dy = Math_abs (yD - y);
          sy = (if y < yD then 1 else - 1);
          err = (if dx > dy then dx else - dy) / 2
      in calculateLine_loop
           \<lparr>v_len = len, v_dx = dx, v_sx = sx, v_dy = dy, v_sy = sy,
            v_x = x, v_y = y, v_err = err, v_i = 0, v_p = []\<rparr>)"

section \<open>calculateShadowMovePoints\<close>

text \<open>The loop \<^verbatim>\<open>for (let i = 0; i <= bounceHeight; i++) p[i] = [x, y]\<close>.\<close>

function shadow_fill :: "real \<Rightarrow> real \<Rightarrow> int \<Rightarrow> int \<Rightarrow> point array \<Rightarrow> point array" where
  "shadow_fill x y bounceHeight i p =
     (if i \<le> bounceHeight then shadow_fill x y bounceHeight (i + 1) (array_set p i (x, y))
      else p)"
  by pat_completeness auto
termination
  by (relation "measure (\<lambda>(x, y, bounceHeight, i, p). nat (bounceHeight + 1 - i))") auto

declare shadow_fill.simps [simp del]

text \<open>
  The angle is a number or \<^verbatim>\<open>null\<close>; \<open>None\<close> is \<^verbatim>\<open>null\<close>, and the test
  \<^verbatim>\<open>angle != null\<close> holds for every number, \<open>0\<close> included.
\<close>

definition calculateShadowMovePoints ::
  "real \<Rightarrow> real \<Rightarrow> int \<Rightarrow> real option \<Rightarrow> point array option" where
  "calculateShadowMovePoints x y bounceHeight angle =
     (case angle of
        Some a \<Rightarrow> calculateLine x y a (bounceHeight + 1)
      | None \<Rightarrow> Some (shadow_fill x y bounceHeight 0 []))"

section \<open>Arithmetic and printing of numbers\<close>

text \<open>
  The language computes with doubles: a division, \<^verbatim>\<open>Math.round\<close> and an addition each
  yield the double nearest to the exact result, or \<^verbatim>\<open>NaN\<close> or an infinity. The three
  operations that \<^verbatim>\<open>calculateDelays\<close> applies to the speed are parameters of the model,
  collected in a record, so that what is proved of the model holds of the language's own
  operations: \<open>num_divide\<close> is \<^verbatim>\<open>/\<close>, \<open>num_round\<close> is \<^verbatim>\<open>Math.round\<close> and \<open>num_add\<close> is
  the \<^verbatim>\<open>+\<close> of \<^verbatim>\<open>totalDelay += deltas[i]\<close>. Before an addition \<^verbatim>\<open>undefined\<close> converts to
  \<^verbatim>\<open>NaN\<close>.
\<close>

record arithmetic =
  num_add :: "number \<Rightarrow> number \<Rightarrow> number"
  num_divide :: "number \<Rightarrow> number \<Rightarrow> number"
  num_round :: "number \<Rightarrow> number"

definition to_number :: "number option \<Rightarrow> number" where
  "to_number v = (case v of Some n \<Rightarrow> n | None \<Rightarrow> NaN)"

text \<open>
  The scale factor of \<^verbatim>\<open>calculateIconResizeTransforms\<close> is a quotient of finite numbers
  that is printed at once: a zero divisor gives \<^verbatim>\<open>NaN\<close> or an infinity (the sign of a zero
  is not modelled).
\<close>

definition divide_num :: "real \<Rightarrow> real \<Rightarrow> number" where
  "divide_num a b =
     (if b \<noteq> 0 then Num (a / b)
      else if a = 0 then NaN else if 0 < a then Infinity else NegInfinity)"

text \<open>
  The conversion of a number to a string, which string concatenation applies to a number
  operand, is the language's own. It is a parameter \<open>toStr\<close> of every function that builds a
  string from a number.
\<close>

type_synonym printer = "number \<Rightarrow> string"

section \<open>calculateIconResizeTransforms\<close>

definition resize_transform :: "printer \<Rightarrow> real \<Rightarrow> real \<Rightarrow> real \<Rightarrow> int \<Rightarrow> string" where
  "resize_transform toStr x y height dH =
     '' matrix3d(1,0,0,0,0,'' @ toStr (divide_num (height - of_int dH) height)
       @ '',0,0,0,0,1,0,'' @ toStr (Num x) @ '','' @ toStr (Num (y + of_int dH)) @ '',0,1) ''"

text \<open>
  The loop \<^verbatim>\<open>while (dH--)\<close>: the test reads \<open>dH\<close>, the body sees it decremented. Below
  zero the test never fails.
\<close>

partial_function (option) resize_loop ::
  "printer \<Rightarrow> real \<Rightarrow> real \<Rightarrow> real \<Rightarrow> int \<Rightarrow> string array \<Rightarrow> string array option" where
  "resize_loop toStr x y height dH t =
     (if dH \<noteq> 0
      then resize_loop toStr x y height (dH - 1)
             (array_set t (dH - 1) (resize_transform toStr x y height (dH - 1)))
      else Some t)"

declare resize_loop.simps [code]

definition calculateIconResizeTransforms ::
  "printer \<Rightarrow> real \<Rightarrow> real \<Rightarrow> real \<Rightarrow> int \<Rightarrow> string array option" where
  "calculateIconResizeTransforms toStr x y height contractHeight =
     resize_loop toStr x y height (contractHeight + 1) []"

section \<open>The store: arrays, the cache and markers\<close>

text \<open>
  Arrays that outlive a call are objects: the store keeps them in \<open>arrays\<close>, and a reference
  is an index into it. \<open>bouncingMotionsCache\<close> maps a key to the reference it holds.
  Markers are objects of the caller: \<open>markers\<close> maps a marker reference to the object, which
  carries the options that \<^verbatim>\<open>calculateTimeline\<close> reads and the motion fields it writes; a
  field that was never written is \<open>None\<close>.
\<close>

type_synonym ref = nat

record options =
  bounceHeight :: int
  bounceSpeed :: real
  elastic :: bool
  contractHeight :: int
  contractSpeed :: real

record motion =
  moveSteps :: "ref option"
  moveDelays :: "ref option"
  resizeSteps :: "ref option"
  resizeDelays :: "ref option"

record marker =
  bouncingOptions :: options
  bouncingMotion :: motion

record state =
  arrays :: "number array list"
  bouncingMotionsCache :: "string \<rightharpoonup> ref"
  markers :: "nat \<Rightarrow> marker"

text \<open>\<^verbatim>\<open>bouncingMotionsCache[key] = a; return a\<close> for an array \<open>a\<close> built by the call.\<close>

definition save_to_cache :: "string \<Rightarrow> number array \<Rightarrow> state \<Rightarrow> ref \<times> state" where
  "save_to_cache key a s =
     (length (arrays s),
      s\<lparr>arrays := arrays s @ [a],
        bouncingMotionsCache := (bouncingMotionsCache s)(key \<mapsto> length (arrays s))\<rparr>)"

text \<open>The array a call returned, read from the store it left.\<close>

definition returned_array :: "(ref \<times> state) option \<Rightarrow> number array option" where
  "returned_array res = map_option (\<lambda>(r, s). arrays s ! r) res"

section \<open>calculateSteps\<close>

text \<open>The loop \<^verbatim>\<open>while (i <= height) steps.push(i++)\<close>.\<close>

function steps_up :: "int \<Rightarrow> int \<Rightarrow> number array \<Rightarrow> number array" where
  "steps_up height i steps =
     (if i \<le> height then steps_up height (i + 1) (push steps (Some (Num (of_int i))))
      else steps)"
  by pat_completeness auto
termination
  by (relation "measure (\<lambda>(height, i, steps). nat (height + 1 - i))") auto

declare steps_up.simps [simp del]

text \<open>The loop \<^verbatim>\<open>while (i--) steps.push(i)\<close>.\<close>

partial_function (option) steps_down :: "int \<Rightarrow> number array \<Rightarrow> number array option" where
  "steps_down i steps =
     (if i \<noteq> 0 then steps_down (i - 1) (push steps (Some (Num (of_int (i - 1)))))
      else Some steps)"

declare steps_down.simps [code]

definition steps_key :: "printer \<Rightarrow> int \<Rightarrow> string \<Rightarrow> string" where
  "steps_key toStr height prefix = prefix @ toStr (Num (of_int height))"

text \<open>
  A cached value is an array, which is truthy even when empty, so the cache test succeeds
  exactly when the key is present.
\<close>

definition calculateSteps :: "printer \<Rightarrow> int \<Rightarrow> string \<Rightarrow> state \<Rightarrow> (ref \<times> state) option" where
  "calculateSteps toStr height prefix s =
     (let key = steps_key toStr height prefix
      in case bouncingMotionsCache s key of
           Some r \<Rightarrow> Some (r, s)
         | None \<Rightarrow>
             (case steps_down height (steps_up height 1 []) of
                None \<Rightarrow> None
              | Some steps \<Rightarrow> Some (save_to_cache key steps s)))"

section \<open>calculateDelays\<close>

text \<open>
  The loop \<^verbatim>\<open>while (--i) deltas[i] = Math.round(speed / (height - i))\<close>: the counter is
  decremented before the test.
\<close>

partial_function (option) delays_fill ::
  "arithmetic \<Rightarrow> int \<Rightarrow> real \<Rightarrow> int \<Rightarrow> number array \<Rightarrow> number array option" where
  "delays_fill ar height speed i deltas =
     (if i - 1 \<noteq> 0
      then delays_fill ar height speed (i - 1)
             (array_set deltas (i - 1)
                (num_round ar
                   (num_divide ar (Num speed) (Num (of_int (height - (i - 1)))))))
      else Some deltas)"

declare delays_fill.simps [code]

text \<open>The loop \<^verbatim>\<open>while (i--) deltas.push(deltas[i])\<close>.\<close>

partial_function (option) delays_mirror :: "int \<Rightarrow> number array \<Rightarrow> number array option" where
  "delays_mirror i deltas =
     (if i \<noteq> 0 then delays_mirror (i - 1) (push deltas (array_get deltas (i - 1)))
      else Some deltas)"

declare delays_mirror.simps [code]

text \<open>
  The loop \<^verbatim>\<open>for (i = 0, l = deltas.length; i < l; i++)\<close> that accumulates the deltas.
\<close>

function delays_sum ::
  "arithmetic \<Rightarrow> number array \<Rightarrow> nat \<Rightarrow> nat \<Rightarrow> number \<Rightarrow> number array
     \<Rightarrow> number array" where
  "delays_sum ar deltas i l totalDelay delays =
     (if i < l
      then delays_sum ar deltas (i + 1) l
             (num_add ar totalDelay (to_number (array_get deltas (int i))))
             (push delays
                (Some (num_add ar totalDelay (to_number (array_get deltas (int i))))))
      else delays)"
  by pat_completeness auto
termination
  by (relation "measure (\<lambda>(ar, deltas, i, l, totalDelay, delays). l - i)") auto

declare delays_sum.simps [simp del]

definition delays_key :: "printer \<Rightarrow> int \<Rightarrow> real \<Rightarrow> string \<Rightarrow> string" where
  "delays_key toStr height speed prefix =
     prefix @ toStr (Num (of_int height)) @ ''_'' @ toStr (Num speed)"

definition calculateDelays ::
  "arithmetic \<Rightarrow> printer \<Rightarrow> int \<Rightarrow> real \<Rightarrow> string \<Rightarrow> state
     \<Rightarrow> (ref \<times> state) option" where
  "calculateDelays ar toStr height speed prefix s =
     (let key = delays_key toStr height speed prefix
      in case bouncingMotionsCache s key of
           Some r \<Rightarrow> Some (r, s)
         | None \<Rightarrow>
             (let deltas = array_set [] height (Num speed);
                  deltas = array_set deltas 0 (Num 0)
              in case delays_fill ar height speed height deltas of
                   None \<Rightarrow> None
                 | Some deltas \<Rightarrow>
                     (case delays_mirror height deltas of
                        None \<Rightarrow> None
                      | Some deltas \<Rightarrow>
                          Some (save_to_cache key
                                  (delays_sum ar deltas 0 (length deltas) (Num 0) []) s))))"

section \<open>calculateTimeline\<close>

definition write_motion :: "nat \<Rightarrow> (motion \<Rightarrow> motion) \<Rightarrow> state \<Rightarrow> state" where
  "write_motion m f s =
     s\<lparr>markers := (markers s)(m := (markers s m)\<lparr>bouncingMotion := f (bouncingMotion (markers s m))\<rparr>)\<rparr>"


section \<open>The sequences the specification names\<close>

text \<open>
  These definitions follow the words of the specification, not the code: the step sequence
  \<open>[1..height]\<close> followed by \<open>[height - 1..0]\<close>, the delta of each offset, the outbound
  deltas followed by their mirror image, and the running sums. The arithmetic is the
  language's, the same parameter as in the code.
\<close>

definition spec_steps :: "int \<Rightarrow> int list" where
  "spec_steps height = [1..height] @ rev [0..height - 1]"

definition spec_delta :: "arithmetic \<Rightarrow> int \<Rightarrow> real \<Rightarrow> int \<Rightarrow> number" where
  "spec_delta ar height speed i =
     (if i = height then Num speed else if i = 0 then Num 0
      else num_round ar (num_divide ar (Num speed) (Num (of_int (height - i)))))"

definition spec_deltas :: "arithmetic \<Rightarrow> int \<Rightarrow> real \<Rightarrow> number list" where
  "spec_deltas ar height speed =
     map (spec_delta ar height speed) [0..height]
       @ rev (map (spec_delta ar height speed) [0..height - 1])"

fun cumulative_sums :: "arithmetic \<Rightarrow> number \<Rightarrow> number list \<Rightarrow> number list" where
  "cumulative_sums ar acc [] = []"
| "cumulative_sums ar acc (d # ds) = num_add ar acc d # cumulative_sums ar (num_add ar acc d) ds"

definition spec_delays :: "arithmetic \<Rightarrow> int \<Rightarrow> real \<Rightarrow> number list" where
  "spec_delays ar height speed = cumulative_sums ar (Num 0) (spec_deltas ar height speed)"

section \<open>Running the model\<close>

text \<open>
  The state of the module when it is loaded: \<^verbatim>\<open>const bouncingMotionsCache = {}\<close>, no
  array allocated yet. The markers are the caller's.
\<close>

definition initial_state :: "(nat \<Rightarrow> marker) \<Rightarrow> state" where
  "initial_state ms = \<lparr>arrays = [], bouncingMotionsCache = Map.empty, markers = ms\<rparr>"

text \<open>
  A printer for concrete runs. On integral numbers it is the language's conversion (decimal
  digits, a minus sign); it is used on integral numbers only.
\<close>

fun digits :: "nat \<Rightarrow> string" where
  "digits n =
     (if n < 10 then [''0123456789'' ! n]
      else digits (n div 10) @ [''0123456789'' ! (n mod 10)])"

declare digits.simps [simp del]

definition print_integral :: printer where
  "print_integral n =
     (case n of
        Num v \<Rightarrow> (if v < 0 then ''-'' @ digits (nat \<lfloor>- v\<rfloor>) else digits (nat \<lfloor>v\<rfloor>))
      | NaN \<Rightarrow> ''NaN''
      | Infinity \<Rightarrow> ''Infinity''
      | NegInfinity \<Rightarrow> ''-Infinity'')"

text \<open>
  An arithmetic for concrete runs: the exact arithmetic of the reals. It is used on small
  integral speeds only, where each quotient is rounded by \<^verbatim>\<open>Math.round\<close> to the same integer
  as its double, and each sum is a sum of small integers, which doubles add exactly.
\<close>

fun exact_add :: "number \<Rightarrow> number \<Rightarrow> number" where
  "exact_add (Num a) (Num b) = Num (a + b)"
| "exact_add a b = NaN"

fun exact_divide :: "number \<Rightarrow> number \<Rightarrow> number" where
  "exact_divide (Num a) (Num b) = divide_num a b"
| "exact_divide a b = NaN"

fun exact_round :: "number \<Rightarrow> number" where
  "exact_round (Num v) = Num (Math_round v)"
| "exact_round n = n"

definition exact_arithmetic :: arithmetic where
  "exact_arithmetic =
     \<lparr>num_add = exact_add, num_divide = exact_divide, num_round = exact_round\<rparr>"

text \<open>Markers for concrete runs: marker \<open>0\<close> is elastic, the others are not.\<close>

definition sample_markers :: "nat \<Rightarrow> marker" where
  "sample_markers m =
     \<lparr>bouncingOptions = \<lparr>bounceHeight = 3, bounceSpeed = 52, elastic = (m = 0),
                          contractHeight = 2, contractSpeed = 52\<rparr>,
      bouncingMotion = \<lparr>moveSteps = None, moveDelays = None,
                         resizeSteps = None, resizeDelays = None\<rparr>\<rparr>"

section \<open>The loop of calculateLine\<close>

lemma calculateLine_loop_returns:
  "v_i v < v_len v \<Longrightarrow> \<exists>q. calculateLine_loop v = Some q
      \<and> length q = length (v_p v) + nat (v_len v - v_i v)
      \<and> take (Suc (length (v_p v))) q = v_p v @ [Some (v_x v, v_y v)]"
proof (induction "nat (v_len v - v_i v - 1)" arbitrary: v)
  case 0
  then have "v_i v + 1 = v_len v" by simp
  then show ?case
    by (subst calculateLine_loop.simps) (auto simp: push_def Let_def)
next
  case (Suc n)
  then have ne: "v_i v + 1 \<noteq> v_len v" and lt: "v_i v + 1 < v_len v" by auto
  define v1 where "v1 = v\<lparr>v_p := push (v_p v) (Some (v_x v, v_y v)), v_i := v_i v + 1\<rparr>"
  define v2 where "v2 = (if v_err v1 > - v_dx v1
                       then v1\<lparr>v_err := v_err v1 - v_dy v1, v_x := v_x v1 + v_sx v1\<rparr> else v1)"
  define v3 where "v3 = (if v_err v1 < v_dy v2
                       then v2\<lparr>v_err := v_err v2 + v_dx v2, v_y := v_y v2 + v_sy v2\<rparr> else v2)"
  have unfold: "calculateLine_loop v = calculateLine_loop v3"
    by (subst calculateLine_loop.simps) (simp add: Let_def ne v1_def v2_def v3_def)
  have i3: "v_i v3 = v_i v + 1" and l3: "v_len v3 = v_len v"
    and p3: "v_p v3 = v_p v @ [Some (v_x v, v_y v)]"
    by (simp_all add: v1_def v2_def v3_def push_def)
  have "n = nat (v_len v3 - v_i v3 - 1)" using Suc.hyps(2) by (simp add: i3 l3)
  moreover have "v_i v3 < v_len v3" using lt by (simp add: i3 l3)
  ultimately obtain q where q: "calculateLine_loop v3 = Some q"
    and lq: "length q = length (v_p v3) + nat (v_len v3 - v_i v3)"
    and tq: "take (Suc (length (v_p v3))) q = v_p v3 @ [Some (v_x v3, v_y v3)]"
    using Suc.hyps(1) by blast
  have "length q = length (v_p v) + nat (v_len v - v_i v)"
    using lq lt by (simp add: i3 l3 p3)
  moreover have "take (Suc (length (v_p v))) q = v_p v @ [Some (v_x v, v_y v)]"
  proof -
    have "take (Suc (length (v_p v))) q = take (Suc (length (v_p v))) (take (Suc (length (v_p v3))) q)"
      by (simp add: p3 min_def)
    also have "\<dots> = take (Suc (length (v_p v))) (v_p v3 @ [Some (v_x v3, v_y v3)])"
      by (simp only: tq)
    also have "\<dots> = v_p v @ [Some (v_x v, v_y v)]"
      by (simp add: p3)
    finally show ?thesis .
  qed
  ultimately show ?case using q unfold by simp
qed

lemma calculateLine_loop_Some_less:
  "calculateLine_loop v = Some q \<Longrightarrow> v_i v < v_len v"
proof (induction rule: calculateLine_loop.raw_induct[rotated 1, consumes 1, case_names step])
  case (step f v q)
  show ?case
  proof (cases "v_i v + 1 = v_len v")
    case True
    then show ?thesis by simp
  next
    case False
    with step.hyps have "\<exists>v'. f v' = Some q \<and> v_i v' = v_i v + 1 \<and> v_len v' = v_len v"
      by (auto simp: Let_def split: if_splits)
    then obtain v' where "f v' = Some q" "v_i v' = v_i v + 1" "v_len v' = v_len v" by blast
    with step.IH[of v' q] show ?thesis by simp
  qed
qed

section \<open>The fill loop of calculateShadowMovePoints\<close>

lemma shadow_fill_eq:
  "0 \<le> i \<Longrightarrow> nat i = length p \<Longrightarrow>
   shadow_fill x y h i p = p @ replicate (nat (h + 1 - i)) (Some (x, y))"
proof (induction x y h i p rule: shadow_fill.induct)
  case (1 x y h i p)
  show ?case
  proof (cases "i \<le> h")
    case True
    have set: "array_set p i (x, y) = p @ [Some (x, y)]"
      using "1.prems" by (simp add: array_set_def)
    have n: "nat (h + 1 - i) = Suc (nat (h + 1 - (i + 1)))" using True by simp
    have "shadow_fill x y h (i + 1) (array_set p i (x, y)) =
            array_set p i (x, y) @ replicate (nat (h + 1 - (i + 1))) (Some (x, y))"
      using "1.prems" by (intro "1.IH"[OF True]) (simp_all add: set)
    moreover have "shadow_fill x y h i p = shadow_fill x y h (i + 1) (array_set p i (x, y))"
      using True by (subst shadow_fill.simps) simp
    ultimately show ?thesis
      by (simp only: n set) simp
  next
    case False
    then show ?thesis by (subst shadow_fill.simps) simp
  qed
qed

section \<open>The loops of calculateSteps\<close>

lemma steps_up_eq: "steps_up h i steps = steps @ map (\<lambda>k. Some (Num (of_int k))) [i..h]"
proof (induction h i steps rule: steps_up.induct)
  case (1 h i steps)
  show ?case
  proof (cases "i \<le> h")
    case True
    then have "steps_up h i steps = steps_up h (i + 1) (push steps (Some (Num (of_int i))))"
      by (subst steps_up.simps) simp
    also have "\<dots> = push steps (Some (Num (of_int i))) @ map (\<lambda>k. Some (Num (of_int k))) [i + 1..h]"
      by (rule "1.IH"[OF True])
    also have "\<dots> = steps @ map (\<lambda>k. Some (Num (of_int k))) [i..h]"
      using True by (simp add: push_def upto_rec1[of i h])
    finally show ?thesis .
  next
    case False
    then show ?thesis by (subst steps_up.simps) simp
  qed
qed

lemma steps_down_eq:
  "0 \<le> i \<Longrightarrow> steps_down i steps = Some (steps @ rev (map (\<lambda>k. Some (Num (of_int k))) [0..i - 1]))"
proof (induction "nat i" arbitrary: i steps)
  case 0
  then have "i = 0" by simp
  then show ?case by (subst steps_down.simps) simp
next
  case (Suc n)
  then have pos: "i \<noteq> 0" "0 \<le> i - 1" "n = nat (i - 1)" by auto
  have "steps_down i steps = steps_down (i - 1) (push steps (Some (Num (of_int (i - 1)))))"
    using pos(1) by (subst steps_down.simps) simp
  also have "\<dots> = Some (push steps (Some (Num (of_int (i - 1))))
                      @ rev (map (\<lambda>k. Some (Num (of_int k))) [0..i - 1 - 1]))"
    by (rule Suc.hyps(1)[OF pos(3) pos(2)])
  also have "\<dots> = Some (steps @ rev (map (\<lambda>k. Some (Num (of_int k))) [0..i - 1]))"
    using pos(2) by (simp add: push_def upto_rec2[of 0 "i - 1"])
  finally show ?case .
qed

lemma steps_down_Some_nonneg: "steps_down i steps = Some q \<Longrightarrow> 0 \<le> i"
proof (induction rule: steps_down.raw_induct[rotated 1, consumes 1, case_names step])
  case (step f i steps q)
  show ?case
  proof (cases "i = 0")
    case True
    then show ?thesis by simp
  next
    case False
    with step.hyps have "f (i - 1) (push steps (Some (Num (of_int (i - 1))))) = Some q" by simp
    from step.IH[OF this] show ?thesis by simp
  qed
qed

section \<open>The loops of calculateDelays\<close>

lemma delays_fill_returns:
  "1 \<le> i \<Longrightarrow> i \<le> h \<Longrightarrow> length d = nat h + 1 \<Longrightarrow>
   \<exists>d'. delays_fill ar h speed i d = Some d' \<and> length d' = length d \<and>
     (\<forall>k. 0 \<le> k \<and> k \<le> h \<longrightarrow>
        d' ! nat k =
          (if 1 \<le> k \<and> k < i
           then Some (num_round ar (num_divide ar (Num speed) (Num (of_int (h - k)))))
           else d ! nat k))"
proof (induction "nat (i - 1)" arbitrary: i d)
  case 0
  then have "i = 1" by simp
  then show ?case by (subst delays_fill.simps) auto
next
  case (Suc n)
  then have ne: "i - 1 \<noteq> 0" and i1: "1 \<le> i - 1" "i - 1 \<le> h" and n: "n = nat (i - 1 - 1)" by auto
  define v where "v = num_round ar (num_divide ar (Num speed) (Num (of_int (h - (i - 1)))))"
  define d1 where "d1 = array_set d (i - 1) v"
  have inb: "nat (i - 1) < length d" using Suc.prems i1 by linarith
  have d1: "d1 = d[nat (i - 1) := Some v]"
    using inb i1 by (simp add: d1_def array_set_def)
  have len1: "length d1 = nat h + 1" using Suc.prems by (simp add: d1)
  from Suc.hyps(1)[OF n i1 len1] obtain d' where
    r: "delays_fill ar h speed (i - 1) d1 = Some d'" and l: "length d' = length d1"
    and c: "\<forall>k. 0 \<le> k \<and> k \<le> h \<longrightarrow>
        d' ! nat k =
          (if 1 \<le> k \<and> k < i - 1
           then Some (num_round ar (num_divide ar (Num speed) (Num (of_int (h - k)))))
           else d1 ! nat k)" by blast
  have "delays_fill ar h speed i d = Some d'"
    using ne r by (subst delays_fill.simps) (simp add: d1_def v_def)
  moreover have "length d' = length d" using l by (simp add: d1)
  moreover have "\<forall>k. 0 \<le> k \<and> k \<le> h \<longrightarrow>
        d' ! nat k =
          (if 1 \<le> k \<and> k < i
           then Some (num_round ar (num_divide ar (Num speed) (Num (of_int (h - k)))))
           else d ! nat k)"
  proof (intro allI impI)
    fix k assume k: "0 \<le> k \<and> k \<le> h"
    show "d' ! nat k =
          (if 1 \<le> k \<and> k < i
           then Some (num_round ar (num_divide ar (Num speed) (Num (of_int (h - k)))))
           else d ! nat k)"
    proof (cases "k = i - 1")
      case True
      then have "d' ! nat k = d1 ! nat k" using c k by simp
      also have "\<dots> = Some v" using True inb by (simp add: d1)
      finally show ?thesis using True i1 by (simp add: v_def)
    next
      case False
      then have "nat k \<noteq> nat (i - 1)" using k i1 by simp
      then have "d1 ! nat k = d ! nat k" by (simp add: d1)
      then show ?thesis using c k False by auto
    qed
  qed
  ultimately show ?case by blast
qed

lemma delays_fill_Some_pos: "delays_fill ar h speed i d = Some q \<Longrightarrow> 1 \<le> i"
proof (induction rule: delays_fill.raw_induct[rotated 1, consumes 1, case_names step])
  case (step f ar h speed i d q)
  show ?case
  proof (cases "i - 1 = 0")
    case True
    then show ?thesis by simp
  next
    case False
    with step.hyps have "f ar h speed (i - 1) (array_set d (i - 1)
                (num_round ar (num_divide ar (Num speed) (Num (of_int (h - (i - 1)))))))
              = Some q" by simp
    from step.IH[OF this] show ?thesis by simp
  qed
qed

lemma delays_mirror_eq:
  "0 \<le> i \<Longrightarrow> nat i \<le> length d \<Longrightarrow> delays_mirror i d = Some (d @ rev (take (nat i) d))"
proof (induction "nat i" arbitrary: i d)
  case 0
  then have "i = 0" by simp
  then show ?case by (subst delays_mirror.simps) simp
next
  case (Suc n)
  then have pos: "i \<noteq> 0" "0 \<le> i - 1" "n = nat (i - 1)" and lt: "nat (i - 1) < length d" by auto
  have get: "array_get d (i - 1) = d ! nat (i - 1)"
    using pos lt by (simp add: array_get_def)
  have "delays_mirror i d = delays_mirror (i - 1) (push d (array_get d (i - 1)))"
    using pos(1) by (subst delays_mirror.simps) simp
  also have "\<dots> = Some (push d (array_get d (i - 1)) @ rev (take (nat (i - 1)) (push d (array_get d (i - 1)))))"
    using lt by (intro Suc.hyps(1)[OF pos(3) pos(2)]) (simp add: push_def)
  also have "\<dots> = Some (d @ rev (take (nat i) d))"
  proof -
    have "nat i = Suc (nat (i - 1))" using pos by simp
    then have "take (nat i) d = take (nat (i - 1)) d @ [d ! nat (i - 1)]"
      using lt by (simp add: take_Suc_conv_app_nth)
    then show ?thesis using lt by (simp add: push_def get)
  qed
  finally show ?case .
qed

lemma delays_sum_eq:
  "i \<le> length ds \<Longrightarrow>
   delays_sum ar (map Some ds) i (length ds) t acc =
     acc @ map Some (cumulative_sums ar t (drop i ds))"
proof (induction "length ds - i" arbitrary: i t acc)
  case 0
  then show ?case by (subst delays_sum.simps) simp
next
  case (Suc n)
  then have lt: "i < length ds" and n: "n = length ds - (i + 1)" by auto
  have get: "to_number (array_get (map Some ds) (int i)) = ds ! i"
    using lt by (simp add: array_get_def to_number_def)
  have dr: "drop i ds = ds ! i # drop (i + 1) ds"
    using lt by (simp add: Cons_nth_drop_Suc)
  have "delays_sum ar (map Some ds) i (length ds) t acc =
        delays_sum ar (map Some ds) (i + 1) (length ds) (num_add ar t (ds ! i))
          (push acc (Some (num_add ar t (ds ! i))))"
    using lt by (subst delays_sum.simps) (simp add: get)
  also have "\<dots> = push acc (Some (num_add ar t (ds ! i)))
                     @ map Some (cumulative_sums ar (num_add ar t (ds ! i)) (drop (i + 1) ds))"
    using lt by (intro Suc.hyps(1)[OF n]) simp
  also have "\<dots> = acc @ map Some (cumulative_sums ar t (drop i ds))"
    by (simp add: push_def dr)
  finally show ?case .
qed

section \<open>calculateSteps and calculateDelays on a key that is not cached\<close>

lemma returned_array_save [simp]:
  "returned_array (Some (save_to_cache key a s)) = Some a"
  by (simp add: returned_array_def save_to_cache_def)

lemma calculateSteps_miss:
  assumes "bouncingMotionsCache s (steps_key toStr h prefix) = None" and "0 \<le> h"
  shows "calculateSteps toStr h prefix s =
           Some (save_to_cache (steps_key toStr h prefix)
                   (map (\<lambda>k. Some (Num (of_int k))) (spec_steps h)) s)"
  using assms by (simp add: calculateSteps_def steps_up_eq steps_down_eq spec_steps_def rev_map)

lemma initial_deltas:
  assumes "1 \<le> h"
  shows "array_set (array_set [] h (Num speed)) 0 (Num 0)
           = Some (Num 0) # replicate (nat h - 1) None @ [Some (Num speed)]"
proof -
  have "nat h = Suc (nat h - 1)" using assms by simp
  then have "replicate (nat h) (None :: number option) = None # replicate (nat h - 1) None"
    by (metis replicate_Suc)
  then show ?thesis using assms by (simp add: array_set_def)
qed

lemma delays_fill_all:
  assumes h: "1 \<le> h"
  shows "delays_fill ar h speed h (array_set (array_set [] h (Num speed)) 0 (Num 0))
           = Some (map (\<lambda>k. Some (spec_delta ar h speed k)) [0..h])"
proof -
  define d where "d = array_set (array_set [] h (Num speed)) 0 (Num 0)"
  have d: "d = Some (Num 0) # replicate (nat h - 1) None @ [Some (Num speed)]"
    unfolding d_def by (rule initial_deltas[OF h])
  have len: "length d = nat h + 1" using h by (simp add: d)
  have d0: "d ! 0 = Some (Num 0)" by (simp add: d)
  have dh: "d ! nat h = Some (Num speed)"
  proof -
    have "nat h = length (Some (Num 0) # replicate (nat h - 1) None)" using h by simp
    then show ?thesis unfolding d by (metis append_Cons nth_append_length)
  qed
  from delays_fill_returns[OF h order_refl len, of ar speed] obtain d' where
    r: "delays_fill ar h speed h d = Some d'" and l: "length d' = length d"
    and c: "\<forall>k. 0 \<le> k \<and> k \<le> h \<longrightarrow>
        d' ! nat k =
          (if 1 \<le> k \<and> k < h
           then Some (num_round ar (num_divide ar (Num speed) (Num (of_int (h - k)))))
           else d ! nat k)" by blast
  have "d' = map (\<lambda>k. Some (spec_delta ar h speed k)) [0..h]"
  proof (rule nth_equalityI)
    show "length d' = length (map (\<lambda>k. Some (spec_delta ar h speed k)) [0..h])"
      using h by (simp add: l len)
  next
    fix j assume "j < length d'"
    then have j: "0 \<le> int j \<and> int j \<le> h" using l len h by simp
    have "d' ! j =
          (if 1 \<le> int j \<and> int j < h
           then Some (num_round ar (num_divide ar (Num speed) (Num (of_int (h - int j)))))
           else d ! j)"
      using c[rule_format, OF j] by simp
    also have "\<dots> = Some (spec_delta ar h speed (int j))"
    proof (cases "int j = h")
      case True
      then have "j = nat h" by simp
      then show ?thesis using True dh by (simp add: spec_delta_def)
    next
      case False
      then show ?thesis using j d0 by (cases "j = 0") (auto simp: spec_delta_def)
    qed
    also have "\<dots> = map (\<lambda>k. Some (spec_delta ar h speed k)) [0..h] ! j"
    proof -
      have "[0..h] ! j = 0 + int j" using j by (intro nth_upto) simp
      moreover have "j < length [0..h]" using j by simp
      ultimately show ?thesis by simp
    qed
    finally show "d' ! j = map (\<lambda>k. Some (spec_delta ar h speed k)) [0..h] ! j" .
  qed
  with r show ?thesis by (simp add: d_def)
qed

lemma take_map_upto:
  assumes "0 \<le> h"
  shows "take (nat h) (map f [0..h]) = map f [0..h - 1]"
proof -
  have "[0..h] = [0..h - 1] @ [h]" using assms by (simp add: upto_rec2)
  moreover have "length [0..h - 1] = nat h" using assms by simp
  ultimately show ?thesis by simp
qed

lemma delays_mirror_all:
  assumes h: "1 \<le> h"
  shows "delays_mirror h (map (\<lambda>k. Some (spec_delta ar h speed k)) [0..h])
           = Some (map Some (spec_deltas ar h speed))"
proof -
  have "delays_mirror h (map (\<lambda>k. Some (spec_delta ar h speed k)) [0..h])
          = Some (map (\<lambda>k. Some (spec_delta ar h speed k)) [0..h]
                  @ rev (take (nat h) (map (\<lambda>k. Some (spec_delta ar h speed k)) [0..h])))"
    using h by (intro delays_mirror_eq) simp_all
  also have "\<dots> = Some (map Some (spec_deltas ar h speed))"
    using h by (simp only: take_map_upto) (simp add: spec_deltas_def rev_map)
  finally show ?thesis .
qed

lemma calculateDelays_miss:
  assumes "bouncingMotionsCache s (delays_key toStr h speed prefix) = None" and "1 \<le> h"
  shows "calculateDelays ar toStr h speed prefix s =
           Some (save_to_cache (delays_key toStr h speed prefix)
                   (map Some (spec_delays ar h speed)) s)"
proof -
  have "delays_sum ar (map Some (spec_deltas ar h speed)) 0
          (length (map Some (spec_deltas ar h speed))) (Num 0) []
        = map Some (spec_delays ar h speed)"
    using delays_sum_eq[of 0 "spec_deltas ar h speed" ar "Num 0" "[]"]
    by (simp add: spec_delays_def)
  then show ?thesis
    using assms by (simp add: calculateDelays_def Let_def delays_fill_all delays_mirror_all)
qed

lemma length_cumulative_sums [simp]: "length (cumulative_sums ar t ds) = length ds"
  by (induction ds arbitrary: t) simp_all

lemma length_spec_delays: "0 \<le> h \<Longrightarrow> length (spec_delays ar h speed) = nat (2 * h + 1)"
  by (simp add: spec_delays_def spec_deltas_def)

lemma length_spec_steps: "0 \<le> h \<Longrightarrow> length (spec_steps h) = nat (2 * h)"
  by (simp add: spec_steps_def)

lemma calculateDelays_diverges:
  assumes "bouncingMotionsCache s (delays_key toStr h speed prefix) = None" and "h \<le> 0"
  shows "calculateDelays ar toStr h speed prefix s = None"
proof -
  have "delays_fill ar h speed h d = None" for d
    using delays_fill_Some_pos[of ar h speed h d] assms(2)
    by (cases "delays_fill ar h speed h d") auto
  then show ?thesis using assms(1) by (simp add: calculateDelays_def Let_def)
qed

lemma calculateDelays_returns:
  assumes "1 \<le> h"
  shows "\<exists>res. calculateDelays ar toStr h speed prefix s = Some res"
proof (cases "bouncingMotionsCache s (delays_key toStr h speed prefix)")
  case None
  then show ?thesis using calculateDelays_miss[OF None assms] by simp
next
  case (Some r)
  then show ?thesis by (simp add: calculateDelays_def)
qed

section \<open>Properties of calculateLine\<close>

lemma calculateLine_loop_points:
  "calculateLine_loop v = Some q \<Longrightarrow> None \<notin> set (v_p v) \<Longrightarrow> None \<notin> set q"
proof (induction rule: calculateLine_loop.raw_induct[rotated 1, consumes 1, case_names step])
  case (step f v q)
  show ?case
  proof (cases "v_i v + 1 = v_len v")
    case True
    with step.hyps step.prems show ?thesis by (auto simp: Let_def push_def)
  next
    case False
    with step.hyps have "\<exists>v'. f v' = Some q \<and> v_p v' = push (v_p v) (Some (v_x v, v_y v))"
      by (auto simp: Let_def split: if_splits)
    then obtain v' where "f v' = Some q" "v_p v' = push (v_p v) (Some (v_x v, v_y v))" by blast
    with step.IH[of v' q] step.prems show ?thesis by (simp add: push_def)
  qed
qed

text \<open>
  C6: for every finite \<open>x\<close> and \<open>y\<close>, every angle that is a number and every integer
  length of at least \<open>1\<close>, \<^verbatim>\<open>calculateLine\<close> returns an array of exactly \<open>length\<close>
  points, none of them a hole, and the first point is \<open>(x, y)\<close>.
\<close>

theorem calculateLine_length_and_origin:
  "1 \<le> len \<Longrightarrow>
   \<exists>p. calculateLine x y angle len = Some p \<and> int (length p) = len \<and> p ! 0 = Some (x, y)
       \<and> None \<notin> set p"
proof -
  assume len: "1 \<le> len"
  define v where "v = \<lparr>v_len = len,
     v_dx = Math_abs (Math_round (x + cos angle * (of_int len * 2)) - x),
     v_sx = (if x < Math_round (x + cos angle * (of_int len * 2)) then 1 else - 1),
     v_dy = Math_abs (Math_round (y + sin angle * (of_int len * 2)) - y),
     v_sy = (if y < Math_round (y + sin angle * (of_int len * 2)) then 1 else - 1),
     v_x = x, v_y = y,
     v_err = (if Math_abs (Math_round (x + cos angle * (of_int len * 2)) - x)
                   > Math_abs (Math_round (y + sin angle * (of_int len * 2)) - y)
              then Math_abs (Math_round (x + cos angle * (of_int len * 2)) - x)
              else - Math_abs (Math_round (y + sin angle * (of_int len * 2)) - y)) / 2,
     v_i = 0, v_p = []\<rparr>"
  have call: "calculateLine x y angle len = calculateLine_loop v"
    by (simp add: calculateLine_def Let_def v_def)
  have "v_i v < v_len v" using len by (simp add: v_def)
  from calculateLine_loop_returns[OF this] obtain q where
    q: "calculateLine_loop v = Some q" and l: "length q = length (v_p v) + nat (v_len v - v_i v)"
    and t: "take (Suc (length (v_p v))) q = v_p v @ [Some (v_x v, v_y v)]" by blast
  have "int (length q) = len" using l len by (simp add: v_def)
  moreover have "q ! 0 = Some (x, y)"
  proof -
    have "take (Suc 0) q = [Some (x, y)]" using t by (simp add: v_def)
    then have "take (Suc 0) q ! 0 = Some (x, y)" by simp
    then show ?thesis by simp
  qed
  moreover have "None \<notin> set q"
    using calculateLine_loop_points[OF q] by (simp add: v_def)
  ultimately show ?thesis using q call by simp
qed

theorem calculateLine_length_and_origin_witness:
  "\<exists>p. calculateLine 0 0 0 5 = Some p \<and> int (length p) = 5 \<and> p ! 0 = Some (0, 0)
       \<and> None \<notin> set p"
  using calculateLine_length_and_origin [of 5 0 0 0] by simp

text \<open>
  C9, as the code has it: \<^verbatim>\<open>calculateLine\<close> has no rejection. For every length of at most
  \<open>0\<close> the counter, which starts at \<open>1\<close> at the first test and only grows, never equals the
  length, and the call does not return.
\<close>

theorem calculateLine_nonpositive_length_diverges:
  "len \<le> 0 \<Longrightarrow> calculateLine x y angle len = None"
proof -
  assume len: "len \<le> 0"
  have "calculateLine x y angle len \<noteq> Some q" for q
  proof
    assume "calculateLine x y angle len = Some q"
    then have "\<exists>v. calculateLine_loop v = Some q \<and> v_i v = 0 \<and> v_len v = len"
      by (auto simp: calculateLine_def Let_def)
    then obtain v where "calculateLine_loop v = Some q" "v_i v = 0" "v_len v = len" by blast
    with calculateLine_loop_Some_less[of v q] len show False by simp
  qed
  then show ?thesis by (cases "calculateLine x y angle len") auto
qed

theorem calculateLine_nonpositive_length_diverges_witness:
  "calculateLine 10 20 0 (- 1) = None"
  using calculateLine_nonpositive_length_diverges [of "- 1" 10 20 0] by simp

text \<open>
  C9, as the specification states it, asks for a call with length \<open>0\<close> to be rejected. The
  call has no outcome at all: it neither rejects nor returns.
\<close>

theorem calculateLine_rejects_zero_length_counterexample:
  "calculateLine 0 0 0 0 = None"
proof -
  have "calculateLine 0 0 0 0 \<noteq> Some q" for q
  proof
    assume "calculateLine 0 0 0 0 = Some q"
    then have "\<exists>v. calculateLine_loop v = Some q \<and> v_i v = 0 \<and> v_len v = 0"
      by (auto simp: calculateLine_def Let_def)
    then obtain v where "calculateLine_loop v = Some q" "v_i v = 0" "v_len v = 0" by blast
    with calculateLine_loop_Some_less[of v q] show False by simp
  qed
  then show ?thesis by (cases "calculateLine 0 0 0 0") auto
qed

section \<open>Properties of calculateShadowMovePoints\<close>

lemma calculateLine_zero_angle_run:
  "calculateLine 10 20 0 4 = Some [Some (10, 20), Some (11, 20), Some (12, 20), Some (13, 20)]"
  apply (simp add: calculateLine_def Let_def Math_round_def Math_abs_def)
  apply (subst calculateLine_loop.simps, simp add: Let_def push_def)
  apply (subst calculateLine_loop.simps, simp add: Let_def push_def)
  apply (subst calculateLine_loop.simps, simp add: Let_def push_def)
  apply (subst calculateLine_loop.simps, simp add: Let_def push_def)
  done

text \<open>
  C5: with \<^verbatim>\<open>null\<close> for the angle, \<^verbatim>\<open>calculateShadowMovePoints\<close> returns
  \<open>bounceHeight + 1\<close> copies of \<open>(x, y)\<close>; the angle \<open>0\<close> is a number, not \<^verbatim>\<open>null\<close>, and
  goes to \<^verbatim>\<open>calculateLine\<close>. For \<open>(10, 20)\<close> and height \<open>3\<close> the first gives four copies
  of \<open>(10, 20)\<close>, the second four points that move along the x axis.
\<close>

theorem calculateShadowMovePoints_null_and_zero:
  "calculateShadowMovePoints x y h None = Some (replicate (nat (h + 1)) (Some (x, y)))
   \<and> calculateShadowMovePoints x y h (Some 0) = calculateLine x y 0 (h + 1)
   \<and> calculateShadowMovePoints 10 20 3 None
       = Some [Some (10, 20), Some (10, 20), Some (10, 20), Some (10, 20)]
   \<and> calculateShadowMovePoints 10 20 3 (Some 0)
       = Some [Some (10, 20), Some (11, 20), Some (12, 20), Some (13, 20)]"
proof -
  have null: "calculateShadowMovePoints x y h None = Some (replicate (nat (h + 1)) (Some (x, y)))"
    for x y h
    using shadow_fill_eq[of 0 "[]" x y h] by (simp add: calculateShadowMovePoints_def)
  have "replicate (nat (3 + 1)) (Some (10 :: real, 20 :: real))
          = [Some (10, 20), Some (10, 20), Some (10, 20), Some (10, 20)]"
    by (simp add: numeral_eq_Suc)
  with null[of 10 20 3] have
    "calculateShadowMovePoints 10 20 3 None
       = Some [Some (10, 20), Some (10, 20), Some (10, 20), Some (10, 20)]" by simp
  moreover have "calculateShadowMovePoints 10 20 3 (Some 0)
       = Some [Some (10, 20), Some (11, 20), Some (12, 20), Some (13, 20)]"
    using calculateLine_zero_angle_run by (simp add: calculateShadowMovePoints_def)
  ultimately show ?thesis using null by (simp add: calculateShadowMovePoints_def)
qed

section \<open>Properties of calculateSteps and calculateDelays\<close>

lemma initial_cache [simp]: "bouncingMotionsCache (initial_state ms) key = None"
  by (simp add: initial_state_def)

text \<open>
  C2, as the code has it: for every height of at least \<open>0\<close> and every prefix, a call of
  \<^verbatim>\<open>calculateSteps\<close> whose key is not yet in the cache returns \<open>[1..height]\<close> followed by
  \<open>[height - 1..0]\<close>, of length \<open>2 * height\<close>.
\<close>

theorem calculateSteps_sequence:
  "bouncingMotionsCache s (steps_key toStr h prefix) = None \<Longrightarrow> 0 \<le> h \<Longrightarrow>
   returned_array (calculateSteps toStr h prefix s)
     = Some (map (\<lambda>k. Some (Num (of_int k))) ([1..h] @ rev [0..h - 1]))
   \<and> map_option length (returned_array (calculateSteps toStr h prefix s)) = Some (nat (2 * h))"
  using length_spec_steps[of h]
  by (simp add: calculateSteps_miss) (simp add: spec_steps_def)

theorem calculateSteps_sequence_witness:
  "returned_array (calculateSteps print_integral 3 ''m_'' (initial_state sample_markers))
     = Some [Some (Num 1), Some (Num 2), Some (Num 3), Some (Num 2), Some (Num 1), Some (Num 0)]"
  using calculateSteps_sequence [of "initial_state sample_markers" print_integral 3 "''m_''"]
  by (simp add: upto.simps)

lemma sample_keys:
  "delays_key print_integral 3 5 ''m_'' = ''m_3_5''"
  "steps_key print_integral 5 ''m_3_'' = ''m_3_5''"
  by (simp_all add: delays_key_def steps_key_def print_integral_def digits.simps)

lemma sample_table:
  "map Some (spec_delays exact_arithmetic 3 5)
     = [Some (Num 0), Some (Num 3), Some (Num 8), Some (Num 13), Some (Num 18),
        Some (Num 21), Some (Num 21)]"
  by (simp add: spec_delays_def spec_deltas_def spec_delta_def upto.simps exact_arithmetic_def
        divide_num_def Math_round_def)

text \<open>
  C2, as the specification states it, holds for every call. The function first looks its key
  up in the cache, which it shares with \<^verbatim>\<open>calculateDelays\<close>, and a key is a plain
  concatenation: after \<^verbatim>\<open>calculateDelays(3, 5, 'm_')\<close> the key \<^verbatim>\<open>m_3_5\<close> is taken, and
  \<^verbatim>\<open>calculateSteps(5, 'm_3_')\<close> finds it and returns the seven delays stored there, not the
  ten steps \<open>1, 2, 3, 4, 5, 4, 3, 2, 1, 0\<close>.
\<close>

theorem calculateSteps_every_call_counterexample:
  "calculateDelays exact_arithmetic print_integral 3 5 ''m_'' (initial_state sample_markers)
     \<noteq> None
   \<and> returned_array
       (calculateSteps print_integral 5 ''m_3_''
          (snd (the (calculateDelays exact_arithmetic print_integral 3 5 ''m_''
                       (initial_state sample_markers)))))
     = Some [Some (Num 0), Some (Num 3), Some (Num 8), Some (Num 13), Some (Num 18),
             Some (Num 21), Some (Num 21)]"
proof -
  let ?s = "initial_state sample_markers"
  let ?table = "map Some (spec_delays exact_arithmetic 3 5)"
  have first: "calculateDelays exact_arithmetic print_integral 3 5 ''m_'' ?s
                 = Some (save_to_cache ''m_3_5'' ?table ?s)"
    using calculateDelays_miss[where s = ?s and toStr = print_integral and h = 3 and speed = 5
        and prefix = "''m_''" and ar = exact_arithmetic]
    by (simp add: sample_keys)
  have second: "calculateSteps print_integral 5 ''m_3_'' (snd (save_to_cache ''m_3_5'' ?table ?s))
                  = Some (save_to_cache ''m_3_5'' ?table ?s)"
    by (simp add: calculateSteps_def sample_keys save_to_cache_def)
  show ?thesis
    using second sample_table by (simp add: first save_to_cache_def returned_array_def)
qed

text \<open>
  C3: for every height of at least \<open>1\<close>, every speed and every prefix, a call of
  \<^verbatim>\<open>calculateDelays\<close> whose key is not in the cache returns the running sums of the
  deltas \<open>delta[0..height]\<close> followed by \<open>delta[0..height - 1]\<close> in reverse order, where
  \<open>delta[height] = speed\<close>, \<open>delta[0] = 0\<close> and
  \<open>delta[i] = round (speed / (height - i))\<close> in between. Division, rounding and the sums
  are the language's own operations on doubles, whatever they are: the running sum starts at
  \<open>0\<close> and adds one delta after the other, in the order of the indices.
\<close>

theorem calculateDelays_cumulative:
  "bouncingMotionsCache s (delays_key toStr h speed prefix) = None \<Longrightarrow> 1 \<le> h \<Longrightarrow>
   returned_array (calculateDelays ar toStr h speed prefix s)
     = Some (map Some (cumulative_sums ar (Num 0)
         (map (spec_delta ar h speed) [0..h] @ rev (map (spec_delta ar h speed) [0..h - 1]))))"
  by (simp add: calculateDelays_miss spec_delays_def spec_deltas_def)

theorem calculateDelays_cumulative_witness:
  "returned_array
     (calculateDelays exact_arithmetic print_integral 3 5 ''m_'' (initial_state sample_markers))
     = Some [Some (Num 0), Some (Num 3), Some (Num 8), Some (Num 13), Some (Num 18),
             Some (Num 21), Some (Num 21)]"
  using calculateDelays_cumulative [where s = "initial_state sample_markers"
      and toStr = print_integral and h = 3 and speed = 5 and prefix = "''m_''"
      and ar = exact_arithmetic]
  by (simp add: upto.simps spec_delta_def exact_arithmetic_def divide_num_def Math_round_def)

text \<open>
  C1, as the code has it: for every height of at least \<open>1\<close>, a call of \<^verbatim>\<open>calculateDelays\<close>
  whose key is not yet in the cache returns \<open>2 * height + 1\<close> delays, one more than the
  \<open>2 * height\<close> steps that a call of \<^verbatim>\<open>calculateSteps\<close> whose key is not yet in the cache
  returns for the same height.
\<close>

theorem delays_longer_than_steps:
  "1 \<le> h \<Longrightarrow> bouncingMotionsCache s (delays_key toStr h speed prefix) = None \<Longrightarrow>
   bouncingMotionsCache t (steps_key toStr h prefix') = None \<Longrightarrow>
   map_option length (returned_array (calculateDelays ar toStr h speed prefix s))
     = Some (nat (2 * h + 1))
   \<and> map_option length (returned_array (calculateSteps toStr h prefix' t)) = Some (nat (2 * h))"
  using length_spec_steps[of h] length_spec_delays[of h ar speed]
  by (simp add: calculateDelays_miss calculateSteps_miss)

theorem delays_longer_than_steps_witness:
  "map_option length
     (returned_array (calculateDelays exact_arithmetic print_integral 15 52 ''moveDelays_''
                        (initial_state sample_markers)))
     = Some 31
   \<and> map_option length
     (returned_array (calculateSteps print_integral 15 ''moveSteps_'' (initial_state sample_markers)))
     = Some 30"
  using delays_longer_than_steps [where h = 15 and s = "initial_state sample_markers"
      and toStr = print_integral and speed = 52 and prefix = "''moveDelays_''"
      and t = "initial_state sample_markers" and prefix' = "''moveSteps_''"
      and ar = exact_arithmetic]
  by simp

text \<open>
  C1, as the specification states it, makes the two lengths equal. For height \<open>1\<close> the delay
  table has three entries and the step sequence two.
\<close>

theorem delays_same_length_as_steps_counterexample:
  "map_option length
     (returned_array (calculateDelays exact_arithmetic print_integral 1 1 ''m_''
                        (initial_state sample_markers)))
     = Some 3
   \<and> map_option length
     (returned_array (calculateSteps print_integral 1 ''m_'' (initial_state sample_markers)))
     = Some 2"
  using length_spec_steps[of 1] length_spec_delays[of 1 exact_arithmetic 1]
  by (simp add: calculateDelays_miss calculateSteps_miss)

text \<open>
  C10: \<^verbatim>\<open>calculateDelays\<close> returns for every height of at least \<open>1\<close>. For height \<open>0\<close>
  (and below) a call that reaches the loop \<^verbatim>\<open>while (--i)\<close>, its key not being in the cache,
  does not return: the counter starts at the height, is decremented before each test and
  never is \<open>0\<close>.
\<close>

theorem calculateDelays_total_from_one:
  "(1 \<le> h \<longrightarrow> (\<exists>res. calculateDelays ar toStr h speed prefix s = Some res))
   \<and> (h \<le> 0 \<and> bouncingMotionsCache s (delays_key toStr h speed prefix) = None
        \<longrightarrow> calculateDelays ar toStr h speed prefix s = None)"
  using calculateDelays_returns[of h ar toStr speed prefix s]
    calculateDelays_diverges[of s toStr h speed prefix ar] by blast

theorem calculateDelays_total_from_one_witness:
  "(\<exists>res. calculateDelays exact_arithmetic print_integral 1 52 ''moveDelays_''
            (initial_state sample_markers) = Some res)
   \<and> calculateDelays exact_arithmetic print_integral 0 52 ''moveDelays_''
        (initial_state sample_markers) = None"
  using calculateDelays_total_from_one [where h = 1 and ar = exact_arithmetic
      and toStr = print_integral and speed = 52 and prefix = "''moveDelays_''"
      and s = "initial_state sample_markers"]
    calculateDelays_total_from_one [where h = 0 and ar = exact_arithmetic
      and toStr = print_integral and speed = 52 and prefix = "''moveDelays_''"
      and s = "initial_state sample_markers"]
  by simp


section \<open>Properties of calculateIconResizeTransforms\<close>

lemma resize_loop_returns:
  "0 \<le> dH \<Longrightarrow> nat dH \<le> length t \<Longrightarrow>
   \<exists>t'. resize_loop toStr x y height dH t = Some t' \<and> length t' = length t \<and>
     (\<forall>k < length t. t' ! k = (if k < nat dH then Some (resize_transform toStr x y height (int k))
                                 else t ! k))"
proof (induction "nat dH" arbitrary: dH t)
  case 0
  then have "dH = 0" by simp
  then show ?case by (subst resize_loop.simps) simp
next
  case (Suc n)
  then have ne: "dH \<noteq> 0" and d1: "0 \<le> dH - 1" and n: "n = nat (dH - 1)"
    and inb: "nat (dH - 1) < length t" by auto
  define t1 where "t1 = array_set t (dH - 1) (resize_transform toStr x y height (dH - 1))"
  have t1: "t1 = t[nat (dH - 1) := Some (resize_transform toStr x y height (dH - 1))]"
    using inb d1 by (simp add: t1_def array_set_def)
  have "nat (dH - 1) \<le> length t1" using inb by (simp add: t1)
  from Suc.hyps(1)[OF n d1 this] obtain t' where
    r: "resize_loop toStr x y height (dH - 1) t1 = Some t'" and l: "length t' = length t1"
    and c: "\<forall>k < length t1. t' ! k =
             (if k < nat (dH - 1) then Some (resize_transform toStr x y height (int k))
              else t1 ! k)" by blast
  have "resize_loop toStr x y height dH t = Some t'"
    using ne r by (subst resize_loop.simps) (simp add: t1_def)
  moreover have "length t' = length t" using l by (simp add: t1)
  moreover have "\<forall>k < length t. t' ! k =
             (if k < nat dH then Some (resize_transform toStr x y height (int k)) else t ! k)"
  proof (intro allI impI)
    fix k assume k: "k < length t"
    show "t' ! k = (if k < nat dH then Some (resize_transform toStr x y height (int k)) else t ! k)"
    proof (cases "k = nat (dH - 1)")
      case True
      then have "int k = dH - 1" using d1 by simp
      moreover have "t' ! k = t1 ! k" using c k True by (simp add: t1)
      ultimately show ?thesis using True inb ne d1 by (simp add: t1)
    next
      case False
      then have "t1 ! k = t ! k" by (simp add: t1)
      moreover have "k < nat (dH - 1) \<longleftrightarrow> k < nat dH" using False d1 by auto
      ultimately show ?thesis using c k by (simp add: t1)
    qed
  qed
  ultimately show ?case by blast
qed

lemma calculateIconResizeTransforms_eq:
  assumes c1: "- 1 \<le> c"
  shows "calculateIconResizeTransforms toStr x y height c
           = Some (map (\<lambda>i. Some (resize_transform toStr x y height i)) [0..c])"
proof (cases "c = - 1")
  case True
  then show ?thesis
    by (subst calculateIconResizeTransforms_def, subst resize_loop.simps) simp
next
  case False
  with c1 have c: "0 \<le> c" by simp
  define t where "t = array_set [] c (resize_transform toStr x y height c)"
  have t: "t = replicate (nat c) None @ [Some (resize_transform toStr x y height c)]"
    using c by (simp add: t_def array_set_def)
  have len: "length t = nat c + 1" by (simp add: t)
  have unfold: "calculateIconResizeTransforms toStr x y height c = resize_loop toStr x y height c t"
    using c by (subst calculateIconResizeTransforms_def, subst resize_loop.simps) (simp add: t_def)
  from resize_loop_returns[OF c, of t toStr x y height] len obtain t' where
    r: "resize_loop toStr x y height c t = Some t'" and l: "length t' = length t"
    and k: "\<forall>k < length t. t' ! k =
             (if k < nat c then Some (resize_transform toStr x y height (int k)) else t ! k)"
    by auto
  have "t' = map (\<lambda>i. Some (resize_transform toStr x y height i)) [0..c]"
  proof (rule nth_equalityI)
    show "length t' = length (map (\<lambda>i. Some (resize_transform toStr x y height i)) [0..c])"
      using c by (simp add: l len)
  next
    fix j assume "j < length t'"
    then have j: "j < length t" "int j \<le> c" using l len c by simp_all
    have up: "[0..c] ! j = 0 + int j" using j by (intro nth_upto) simp
    have jl: "j < length [0..c]" using j c by simp
    show "t' ! j = map (\<lambda>i. Some (resize_transform toStr x y height i)) [0..c] ! j"
    proof (cases "j < nat c")
      case True
      then show ?thesis using k j up jl by simp
    next
      case False
      then have "j = nat c" using j c by simp
      moreover have "t ! nat c = Some (resize_transform toStr x y height c)"
        unfolding t by (metis length_replicate nth_append_length)
      ultimately show ?thesis using k j up jl c by simp
    qed
  qed
  with r unfold show ?thesis by simp
qed

text \<open>
  C8: for every original height other than \<open>0\<close> (and a contraction height of at least \<open>- 1\<close>,
  below which the loop \<^verbatim>\<open>while (dH--)\<close> does not end),
  \<^verbatim>\<open>calculateIconResizeTransforms\<close> returns \<open>contractHeight + 1\<close> strings; entry \<open>i\<close> prints
  the scale factor \<open>(height - i) / height\<close> and the translation \<open>(x, y + i)\<close>. For height
  \<open>10\<close> and contraction \<open>2\<close> the factors are \<open>1\<close>, \<open>9 / 10\<close>, \<open>8 / 10\<close> and the
  translations \<open>y\<close>, \<open>y + 1\<close>, \<open>y + 2\<close>.
\<close>

theorem calculateIconResizeTransforms_entries:
  "height \<noteq> 0 \<Longrightarrow> - 1 \<le> c \<Longrightarrow>
   calculateIconResizeTransforms toStr x y height c
     = Some (map (\<lambda>i. Some ('' matrix3d(1,0,0,0,0,'' @ toStr (Num ((height - of_int i) / height))
                             @ '',0,0,0,0,1,0,'' @ toStr (Num x) @ '','' @ toStr (Num (y + of_int i))
                             @ '',0,1) ''))
               [0..c])
   \<and> map_option length (calculateIconResizeTransforms toStr x y height c) = Some (nat (c + 1))"
  by (simp add: calculateIconResizeTransforms_eq resize_transform_def divide_num_def)

theorem calculateIconResizeTransforms_entries_witness:
  "\<forall>toStr x y. calculateIconResizeTransforms toStr x y 10 2
     = Some [Some ('' matrix3d(1,0,0,0,0,'' @ toStr (Num 1)
                     @ '',0,0,0,0,1,0,'' @ toStr (Num x) @ '','' @ toStr (Num y) @ '',0,1) ''),
             Some ('' matrix3d(1,0,0,0,0,'' @ toStr (Num (9 / 10))
                     @ '',0,0,0,0,1,0,'' @ toStr (Num x) @ '','' @ toStr (Num (y + 1)) @ '',0,1) ''),
             Some ('' matrix3d(1,0,0,0,0,'' @ toStr (Num (8 / 10))
                     @ '',0,0,0,0,1,0,'' @ toStr (Num x) @ '','' @ toStr (Num (y + 2)) @ '',0,1) '')]"
proof (intro allI)
  fix toStr :: printer and x y :: real
  show "calculateIconResizeTransforms toStr x y 10 2
     = Some [Some ('' matrix3d(1,0,0,0,0,'' @ toStr (Num 1)
                     @ '',0,0,0,0,1,0,'' @ toStr (Num x) @ '','' @ toStr (Num y) @ '',0,1) ''),
             Some ('' matrix3d(1,0,0,0,0,'' @ toStr (Num (9 / 10))
                     @ '',0,0,0,0,1,0,'' @ toStr (Num x) @ '','' @ toStr (Num (y + 1)) @ '',0,1) ''),
             Some ('' matrix3d(1,0,0,0,0,'' @ toStr (Num (8 / 10))
                     @ '',0,0,0,0,1,0,'' @ toStr (Num x) @ '','' @ toStr (Num (y + 2)) @ '',0,1) '')]"
    using calculateIconResizeTransforms_entries [of 10 2 toStr x y]
    by (simp add: upto.simps)
qed

section \<open>The cache\<close>







lemma write_motion_simps [simp]:
  "bouncingMotionsCache (write_motion m f s) = bouncingMotionsCache s"
  "arrays (write_motion m f s) = arrays s"
  "bouncingOptions (markers (write_motion m f s) m) = bouncingOptions (markers s m)"
  "bouncingMotion (markers (write_motion m f s) m) = f (bouncingMotion (markers s m))"
  "n \<noteq> m \<Longrightarrow> markers (write_motion m f s) n = markers s n"
  by (simp_all add: write_motion_def)





section \<open>Properties of calculateTimeline\<close>





end
